theory Spec2Isabelle
  imports Main "HOL-Library.Char_ord" "HOL-Library.List_Lexorder"
begin

section \<open>Image-set user study (streamlit\_app.py)\<close>

text \<open>
  A Python \<open>str\<close> is modelled as \<open>string\<close>, the list of its UTF-8 bytes. Comparing two
  such lists byte by byte (\<open>Char_ord\<close>, \<open>List_Lexorder\<close>) orders them as Python orders the
  strings by code point, so \<open>sort\<close> stands for \<open>list.sort()\<close> on file names.
\<close>

subsection \<open>Exceptions and the file system\<close>

datatype error = OSError string | NameError string

text \<open>
  The operating system as the script sees it: \<open>os.listdir\<close> returns the entry names of a
  directory or raises \<open>OSError\<close> (missing path, permission denied); \<open>os.path.isdir\<close> never
  raises; \<open>os.makedirs(path, exist_ok=True)\<close> and writing a text file (\<open>open\<close> for writing,
  then \<open>write\<close>) either succeed (\<open>None\<close>) or raise the given error.
\<close>

record filesystem =
  os_listdir :: "string \<Rightarrow> error + string list"
  os_isdir :: "string \<Rightarrow> bool"
  os_makedirs :: "string \<Rightarrow> error option"
  write_text :: "string \<Rightarrow> string \<Rightarrow> error option"

text \<open>\<open>os.path.join(a, b)\<close> of posixpath, for two components.\<close>

definition path_join :: "string \<Rightarrow> string \<Rightarrow> string" where
  "path_join a b =
     (if b \<noteq> [] \<and> hd b = CHR ''/'' then b
      else if a = [] \<or> last a = CHR ''/'' then a @ b
      else a @ ''/'' @ b)"

text \<open>\<open>str.rfind\<close> for a single character: the last index of \<open>c\<close>, or \<open>-1\<close>.\<close>

fun rfind_from :: "char \<Rightarrow> string \<Rightarrow> int \<Rightarrow> int \<Rightarrow> int" where
  "rfind_from c [] i best = best"
| "rfind_from c (x # xs) i best = rfind_from c xs (i + 1) (if x = c then i else best)"

definition rfind :: "string \<Rightarrow> char \<Rightarrow> int" where
  "rfind p c = rfind_from c p 0 (- 1)"

text \<open>
  \<open>os.path.splitext\<close> of posixpath: the extension starts at the last dot of the last path
  component, unless that component has nothing but dots before it.
\<close>

definition splitext :: "string \<Rightarrow> string \<times> string" where
  "splitext p =
     (let sepIndex = rfind p (CHR ''/'');
          dotIndex = rfind p (CHR ''.'')
      in if dotIndex > sepIndex
         then (let filenameIndex = sepIndex + 1
               in if list_ex (\<lambda>c. c \<noteq> CHR ''.'')
                       (take (nat (dotIndex - filenameIndex)) (drop (nat filenameIndex) p))
                  then (take (nat dotIndex) p, drop (nat dotIndex) p)
                  else (p, []))
         else (p, []))"

text \<open>
  \<open>str.lower\<close> on the ASCII letters. No other character lowers to a string of
  \<open>IMG_EXTS\<close> letters except the Kelvin sign (to \<open>k\<close>), which no extension of the set has.
\<close>

definition lower_char :: "char \<Rightarrow> char" where
  "lower_char c =
     (if CHR ''A'' \<le> c \<and> c \<le> CHR ''Z'' then char_of (of_char c + (32 :: nat)) else c)"

definition lower :: "string \<Rightarrow> string" where
  "lower s = map lower_char s"

subsection \<open>Helpers\<close>

definition IMG_EXTS :: "string set" where
  "IMG_EXTS = {''.png'', ''.jpg'', ''.jpeg'', ''.webp'', ''.bmp'', ''.tiff''}"

definition ALLOWED_IMAGES :: "string set" where
  "ALLOWED_IMAGES =
     {''Mirror Change Top Layers _ Alpha_ 0_5.png'', ''No Intervension _ Alpha_ 0_5.png''}"

text \<open>
  \<open>try: body except Exception: handler\<close>. Every error of the model is a subclass of
  \<open>Exception\<close>.
\<close>

definition try_except :: "error + 'a \<Rightarrow> (error \<Rightarrow> error + 'a) \<Rightarrow> error + 'a" where
  "try_except body handler = (case body of Inl e \<Rightarrow> handler e | Inr v \<Rightarrow> Inr v)"

text \<open>
  \<open>list_folders\<close>: the whole body is inside the \<open>try\<close>; the handler returns \<open>[]\<close>.
\<close>

definition list_folders :: "filesystem \<Rightarrow> string \<Rightarrow> error + string list" where
  "list_folders fs root =
     try_except
       (case os_listdir fs root of
          Inl e \<Rightarrow> Inl e
        | Inr names \<Rightarrow>
            (let entries = filter (\<lambda>d. os_isdir fs (path_join root d)) names
             in Inr (sort entries)))
       (\<lambda>e. Inr [])"

text \<open>The test of the loop body of \<open>list_images\<close>.\<close>

definition qualifies :: "string \<Rightarrow> bool" where
  "qualifies f = (let ext = lower (snd (splitext f)) in ext \<in> IMG_EXTS \<and> f \<in> ALLOWED_IMAGES)"

text \<open>
  \<open>list_images\<close>: \<open>files\<close> starts empty; the loop over \<open>os.listdir\<close> is inside the \<open>try\<close>
  and only \<open>os.listdir\<close> can raise, before the first iteration; the handler is \<open>pass\<close>,
  and \<open>files\<close> is sorted and returned after the \<open>try\<close> statement.
\<close>

definition list_images :: "filesystem \<Rightarrow> string \<Rightarrow> error + string list" where
  "list_images fs folder_path =
     (case try_except
             (case os_listdir fs folder_path of
                Inl e \<Rightarrow> Inl e
              | Inr names \<Rightarrow> Inr (filter qualifies names))
             (\<lambda>e. Inr [])
      of Inl e \<Rightarrow> Inl e
       | Inr files \<Rightarrow> Inr (sort files))"

subsection \<open>Session state\<close>

text \<open>One dictionary of the list \<open>questions\<close>: keys \<open>folder\<close>, \<open>path\<close>, \<open>images\<close>.\<close>

record question =
  q_folder :: string
  q_path :: string
  q_images :: "string list"

text \<open>
  The values of \<open>st.session_state.answers\<close>, as the three callbacks write them:
  \<open>{"mode": "best", "choice": fname}\<close>, \<open>{"mode": "worst_equal", "choice": others}\<close> and
  \<open>{"mode": "none", "choice": None}\<close>. A folder that is no key of the dictionary has no
  answer.
\<close>

datatype answer = Best string | WorstEqual "string list" | NoneMode

text \<open>
  \<open>st.session_state\<close>: the named entries the script keeps, and the per-widget booleans
  (\<open>widgets\<close>), which are entries of the same bag under the keys \<open>best::..\<close>, \<open>worst::..\<close>
  and \<open>none::..\<close>.
\<close>

record session_state =
  state_initialized :: bool
  questions :: "question list"
  current_idx :: int
  participant_name :: string
  answers :: "string \<rightharpoonup> answer"
  widgets :: "string \<rightharpoonup> bool"

subsection \<open>Start / Refresh\<close>

text \<open>
  \<open>random.Random(seed).shuffle(xs)\<close> is library code. It enters the model as the parameter
  \<open>shuffle\<close>, applied to the seed string and the list: a new generator is made from the
  seed string at each use, and Python derives the generator's state from the characters of a
  \<open>str\<close> seed alone.

  The loop that builds the question list, with \<open>acc\<close> for the list \<open>questions\<close> that the loop
  appends to.
\<close>

fun build_questions ::
  "(string \<Rightarrow> string list \<Rightarrow> string list) \<Rightarrow> filesystem \<Rightarrow> string \<Rightarrow> string \<Rightarrow> bool \<Rightarrow>
   string list \<Rightarrow> question list \<Rightarrow> error + question list" where
  "build_questions shuffle fs base_dir name shuffle_images [] acc = Inr acc"
| "build_questions shuffle fs base_dir name shuffle_images (fo # rest) acc =
     (let folder_path = path_join base_dir fo
      in case list_images fs folder_path of
           Inl e \<Rightarrow> Inl e
         | Inr listed \<Rightarrow>
             (let imgs = (if shuffle_images then shuffle (name @ ''|'' @ fo) listed else listed);
                  acc' = (if imgs \<noteq> []
                          then acc @ [\<lparr>q_folder = fo, q_path = folder_path, q_images = imgs\<rparr>]
                          else acc)
              in build_questions shuffle fs base_dir name shuffle_images rest acc'))"

text \<open>
  The body of \<open>if st.button("Start / Refresh", ...)\<close>, run when the button is pressed (it
  is disabled while the stripped participant name is empty).
\<close>

definition start_refresh ::
  "(string \<Rightarrow> string list \<Rightarrow> string list) \<Rightarrow> filesystem \<Rightarrow> string \<Rightarrow> string \<Rightarrow> bool \<Rightarrow> bool \<Rightarrow>
   session_state \<Rightarrow> error + session_state" where
  "start_refresh shuffle fs root_dir name shuffle_questions shuffle_images st =
     (let base_dir = root_dir
      in case list_folders fs base_dir of
           Inl e \<Rightarrow> Inl e
         | Inr sorted_folders \<Rightarrow>
             (let folders = (if shuffle_questions
                             then shuffle (name @ ''|questions'') sorted_folders
                             else sorted_folders)
              in case build_questions shuffle fs base_dir name shuffle_images folders [] of
                   Inl e \<Rightarrow> Inl e
                 | Inr qs \<Rightarrow>
                     Inr (st\<lparr>questions := qs, current_idx := 0, participant_name := name,
                             answers := Map.empty, state_initialized := True\<rparr>)))"

subsection \<open>Navigation\<close>

text \<open>
  The two guards and the clamp of every script run: \<open>None\<close> stands for \<open>st.stop()\<close>, which
  ends the run before any question is shown.
\<close>

definition render_nav :: "session_state \<Rightarrow> session_state option" where
  "render_nav st =
     (if \<not> state_initialized st then None
      else if questions st = [] then None
      else (let nq = int (length (questions st));
                idx = max 0 (min (current_idx st) (nq - 1))
            in Some (st\<lparr>current_idx := idx\<rparr>)))"

text \<open>
  The two buttons, pressed in a run whose clamped index is \<open>current_idx st\<close>. A disabled
  button cannot be pressed and leaves the state as it is.
\<close>

definition click_previous :: "session_state \<Rightarrow> session_state" where
  "click_previous st =
     (let idx = current_idx st
      in if idx = 0 then st else st\<lparr>current_idx := max 0 (idx - 1)\<rparr>)"

definition click_next :: "session_state \<Rightarrow> session_state" where
  "click_next st =
     (let nq = int (length (questions st)); idx = current_idx st
      in if idx \<ge> nq - 1 then st else st\<lparr>current_idx := min (nq - 1) (idx + 1)\<rparr>)"

subsection \<open>Selection callbacks\<close>

definition best_key :: "string \<Rightarrow> string \<Rightarrow> string" where
  "best_key fo fname = ''best::'' @ fo @ ''::'' @ fname"

definition worst_key :: "string \<Rightarrow> string \<Rightarrow> string" where
  "worst_key fo fname = ''worst::'' @ fo @ ''::'' @ fname"

definition none_key :: "string \<Rightarrow> string" where
  "none_key fo = ''none::'' @ fo"

text \<open>A run of assignments \<open>st.session_state[k] = v\<close>, in order.\<close>

fun set_keys :: "(string \<times> bool) list \<Rightarrow> (string \<rightharpoonup> bool) \<Rightarrow> (string \<rightharpoonup> bool)" where
  "set_keys [] w = w"
| "set_keys ((k, v) # kvs) w = set_keys kvs (w(k \<mapsto> v))"

text \<open>
  The callbacks close over the current question: \<open>fo\<close> is its folder, \<open>imgs\<close> its image
  list, from which \<open>best_keys\<close> and \<open>worst_keys\<close> are made.
\<close>

definition select_best :: "string \<Rightarrow> string list \<Rightarrow> string \<Rightarrow> session_state \<Rightarrow> session_state" where
  "select_best fo imgs chosen_fname st =
     (let best_keys = map (best_key fo) imgs;
          worst_keys = map (worst_key fo) imgs;
          w1 = set_keys (map (\<lambda>(k, fname). (k, fname = chosen_fname)) (zip best_keys imgs))
                 (widgets st);
          w2 = set_keys (map (\<lambda>k. (k, False)) worst_keys) w1;
          w3 = w2(none_key fo \<mapsto> False)
      in st\<lparr>answers := (answers st)(fo \<mapsto> Best chosen_fname), widgets := w3\<rparr>)"

definition select_worst :: "string \<Rightarrow> string list \<Rightarrow> string \<Rightarrow> session_state \<Rightarrow> session_state" where
  "select_worst fo imgs chosen_fname st =
     (let best_keys = map (best_key fo) imgs;
          worst_keys = map (worst_key fo) imgs;
          others = filter (\<lambda>f. f \<noteq> chosen_fname) imgs;
          w1 = set_keys (map (\<lambda>(k, fname). (k, fname = chosen_fname)) (zip worst_keys imgs))
                 (widgets st);
          w2 = set_keys (map (\<lambda>k. (k, False)) best_keys) w1;
          w3 = w2(none_key fo \<mapsto> False)
      in st\<lparr>answers := (answers st)(fo \<mapsto> WorstEqual others), widgets := w3\<rparr>)"

definition select_none :: "string \<Rightarrow> string list \<Rightarrow> session_state \<Rightarrow> session_state" where
  "select_none fo imgs st =
     (let best_keys = map (best_key fo) imgs;
          worst_keys = map (worst_key fo) imgs;
          w1 = set_keys (map (\<lambda>k. (k, False)) (best_keys @ worst_keys)) (widgets st);
          w2 = w1(none_key fo \<mapsto> True)
      in st\<lparr>answers := (answers st)(fo \<mapsto> NoneMode), widgets := w2\<rparr>)"

subsection \<open>Export\<close>

text \<open>One dictionary of the list \<open>results\<close>: keys \<open>participant\<close>, \<open>folder\<close>, \<open>selected_file\<close>.\<close>

record result_row =
  row_participant :: string
  row_folder :: string
  row_selected_file :: string

text \<open>\<open>sep.join(xs)\<close>.\<close>

fun str_join :: "string \<Rightarrow> string list \<Rightarrow> string" where
  "str_join sep [] = []"
| "str_join sep [x] = x"
| "str_join sep (x # y # ys) = x @ sep @ str_join sep (y # ys)"

text \<open>
  The module reads the global name \<open>none_label\<close> in the \<open>"none"\<close> branch of the results
  loop and binds it nowhere: no assignment, import or definition of that name exists in
  the script. Reading an unbound global raises \<open>NameError\<close>.
\<close>

definition none_label :: "string option" where
  "none_label = None"

text \<open>
  The body of the results loop for one question \<open>qd\<close>. The final \<open>else\<close> of the source
  (a mode other than the three) has no case here: no callback writes such an answer.
\<close>

definition result_row_of :: "string \<Rightarrow> (string \<rightharpoonup> answer) \<Rightarrow> question \<Rightarrow> error + result_row" where
  "result_row_of name amap qd =
     (let f = q_folder qd
      in case amap f of
           None \<Rightarrow> Inr \<lparr>row_participant = name, row_folder = f, row_selected_file = []\<rparr>
         | Some (Best choice) \<Rightarrow>
             Inr \<lparr>row_participant = name, row_folder = f, row_selected_file = choice\<rparr>
         | Some (WorstEqual others) \<Rightarrow>
             (let msg = (if length others \<ge> 2
                         then ''equal score for '' @ others ! 0 @ '' and '' @ others ! 1
                         else ''equal score for '' @ str_join '' and '' others)
              in Inr \<lparr>row_participant = name, row_folder = f, row_selected_file = msg\<rparr>)
         | Some NoneMode \<Rightarrow>
             (case none_label of
                None \<Rightarrow> Inl (NameError ''none_label'')
              | Some label \<Rightarrow>
                  Inr \<lparr>row_participant = name, row_folder = f, row_selected_file = label\<rparr>))"

text \<open>The results loop, with \<open>acc\<close> for the list \<open>results\<close> that the loop appends to.\<close>

fun results_loop ::
  "string \<Rightarrow> (string \<rightharpoonup> answer) \<Rightarrow> question list \<Rightarrow> result_row list \<Rightarrow> error + result_row list"
  where
  "results_loop name amap [] acc = Inr acc"
| "results_loop name amap (qd # rest) acc =
     (case result_row_of name amap qd of
        Inl e \<Rightarrow> Inl e
      | Inr row \<Rightarrow> results_loop name amap rest (acc @ [row]))"

definition results :: "session_state \<Rightarrow> error + result_row list" where
  "results st = results_loop (participant_name st) (answers st) (questions st) []"

text \<open>What the export part of a run shows: the notice about the saved copy and the download.\<close>

datatype notice = Success string | Warning string

record export_view =
  save_notice :: notice
  download_data :: string
  download_name :: string

text \<open>\<open>str(e)\<close> of an exception.\<close>

fun error_text :: "error \<Rightarrow> string" where
  "error_text (OSError m) = m"
| "error_text (NameError m) = m"

text \<open>
  The export part of a script run, from the results table to the download button.
  \<open>to_csv\<close> stands for the \<open>csv.DictWriter\<close> calls (header and rows written to a
  \<open>StringIO\<close>), \<open>fn\<close> for the file name made from \<open>slugify(participant_name)\<close> and the clock;
  \<open>csv_bytes\<close> is the text itself, a \<open>str\<close> being its UTF-8 bytes here.
  \<open>os.makedirs\<close> is called before the \<open>try\<close> statement; only the write is inside it.
\<close>

definition export_section ::
  "(result_row list \<Rightarrow> string) \<Rightarrow> filesystem \<Rightarrow> string \<Rightarrow> string \<Rightarrow> session_state \<Rightarrow>
   error + export_view" where
  "export_section to_csv fs root_dir fn st =
     (case results st of
        Inl e \<Rightarrow> Inl e
      | Inr rows \<Rightarrow>
          (let csv_text = to_csv rows;
               csv_bytes = csv_text;
               results_dir = path_join root_dir ''results''
           in case os_makedirs fs results_dir of
                Some e \<Rightarrow> Inl e
              | None \<Rightarrow>
                  (let file_path = path_join results_dir fn;
                       shown = (case write_text fs file_path csv_text of
                                  None \<Rightarrow> Success (''Saved results to: '' @ file_path)
                                | Some e \<Rightarrow>
                                    Warning (''Could not save results to disk: '' @ error_text e))
                   in Inr \<lparr>save_notice = shown, download_data = csv_bytes,
                           download_name = fn\<rparr>)))"

section \<open>Properties\<close>

subsection \<open>Concrete inputs\<close>

text \<open>A file system on which every call fails.\<close>

definition broken_fs :: filesystem where
  "broken_fs =
     \<lparr>os_listdir = (\<lambda>p. Inl (OSError ''No such file or directory'')),
      os_isdir = (\<lambda>p. False),
      os_makedirs = (\<lambda>p. Some (OSError ''Read-only file system'')),
      write_text = (\<lambda>p t. Some (OSError ''Read-only file system''))\<rparr>"

text \<open>Two questions over the folders \<open>F1\<close> and \<open>F2\<close>, in that order.\<close>

definition qF1 :: question where
  "qF1 = \<lparr>q_folder = ''F1'', q_path = ''/data/F1'', q_images = [''img1.png'', ''img2.png'']\<rparr>"

definition qF2 :: question where
  "qF2 = \<lparr>q_folder = ''F2'', q_path = ''/data/F2'', q_images = [''img1.png'', ''img2.png'']\<rparr>"

definition session_F1_F2 :: session_state where
  "session_F1_F2 =
     \<lparr>state_initialized = True, questions = [qF1, qF2], current_idx = 0,
      participant_name = ''name'', answers = Map.empty, widgets = Map.empty\<rparr>"

text \<open>One question over the folder \<open>F\<close> with the images \<open>a.png\<close> and \<open>b.png\<close>.\<close>

definition session_ab :: session_state where
  "session_ab =
     \<lparr>state_initialized = True,
      questions = [\<lparr>q_folder = ''F'', q_path = ''/data/F'', q_images = [''a.png'', ''b.png'']\<rparr>],
      current_idx = 0, participant_name = ''name'', answers = Map.empty,
      widgets = Map.empty\<rparr>"

subsection \<open>Control states of a question\<close>

text \<open>
  A control is on when its key holds \<open>True\<close> in the session state. For the question with
  folder \<open>fo\<close> and images \<open>imgs\<close>: the images whose "best" control is on, those whose "worst"
  control is on, and the number of controls of the question that are on, the "none" control
  included.
\<close>

definition is_on :: "(string \<rightharpoonup> bool) \<Rightarrow> string \<Rightarrow> bool" where
  "is_on w k = (w k = Some True)"

definition best_marks :: "string \<Rightarrow> string list \<Rightarrow> (string \<rightharpoonup> bool) \<Rightarrow> string list" where
  "best_marks fo imgs w = filter (\<lambda>f. is_on w (best_key fo f)) (remdups imgs)"

definition worst_marks :: "string \<Rightarrow> string list \<Rightarrow> (string \<rightharpoonup> bool) \<Rightarrow> string list" where
  "worst_marks fo imgs w = filter (\<lambda>f. is_on w (worst_key fo f)) (remdups imgs)"

definition controls_on :: "string \<Rightarrow> string list \<Rightarrow> (string \<rightharpoonup> bool) \<Rightarrow> nat" where
  "controls_on fo imgs w =
     length (best_marks fo imgs w) + length (worst_marks fo imgs w) +
     (if is_on w (none_key fo) then 1 else 0)"

subsection \<open>The catalog as the file system gives it\<close>

text \<open>
  The names \<open>os.listdir\<close> reports at a path, none when it raises: the files present in a
  folder as far as the script can see them.
\<close>

definition listed_names :: "filesystem \<Rightarrow> string \<Rightarrow> string list" where
  "listed_names fs p = (case os_listdir fs p of Inl e \<Rightarrow> [] | Inr names \<Rightarrow> names)"

text \<open>
  The dictionary the loop of Start / Refresh makes for the folder \<open>fo\<close>, before the test
  \<open>if imgs\<close> decides whether it is appended.
\<close>

definition question_for ::
  "(string \<Rightarrow> string list \<Rightarrow> string list) \<Rightarrow> filesystem \<Rightarrow> string \<Rightarrow> string \<Rightarrow> bool \<Rightarrow> string \<Rightarrow>
   question" where
  "question_for shuffle fs base_dir name shuffle_images fo =
     \<lparr>q_folder = fo, q_path = path_join base_dir fo,
      q_images =
        (let listed = sort (filter qualifies (listed_names fs (path_join base_dir fo)))
         in if shuffle_images then shuffle (name @ ''|'' @ fo) listed else listed)\<rparr>"

text \<open>
  A shuffle that reverses the list whatever the seed: for a list of two, the one outcome of
  \<open>random.shuffle\<close> that differs from the identity. It is the outcome CPython 3 gives for
  the seeds of the concrete inputs below: \<open>name|questions\<close> on two folders and \<open>name|A\<close> on
  the two allowlisted images.
\<close>

definition reversing_shuffle :: "string \<Rightarrow> string list \<Rightarrow> string list" where
  "reversing_shuffle seed xs = rev xs"

text \<open>
  A root \<open>/data\<close> with a plain file and two folders: \<open>A\<close> holds both allowlisted images and
  two other files, \<open>B\<close> holds no allowlisted image.
\<close>

definition fs_AB :: filesystem where
  "fs_AB =
     \<lparr>os_listdir = (\<lambda>p.
        if p = ''/data'' then Inr [''readme.md'', ''B'', ''A'']
        else if p = ''/data/A''
          then Inr [''notes.txt'', ''No Intervension _ Alpha_ 0_5.png'', ''other.png'',
                    ''Mirror Change Top Layers _ Alpha_ 0_5.png'']
        else if p = ''/data/B'' then Inr [''other.png'']
        else Inl (OSError ''No such file or directory'')),
      os_isdir = (\<lambda>p. p = ''/data/A'' \<or> p = ''/data/B''),
      os_makedirs = (\<lambda>p. None),
      write_text = (\<lambda>p t. None)\<rparr>"

text \<open>The session state before the first Start / Refresh.\<close>

definition session0 :: session_state where
  "session0 =
     \<lparr>state_initialized = False, questions = [], current_idx = 0, participant_name = [],
      answers = Map.empty, widgets = Map.empty\<rparr>"

text \<open>
  A root \<open>/data\<close> with the folders \<open>F1\<close> and \<open>F2\<close>, one allowlisted image in each, and the
  session that Start / Refresh builds on it when the question shuffle swaps the two folders.
\<close>

definition fs_two :: filesystem where
  "fs_two =
     \<lparr>os_listdir = (\<lambda>p.
        if p = ''/data'' then Inr [''F2'', ''F1'']
        else if p = ''/data/F1'' \<or> p = ''/data/F2''
          then Inr [''No Intervension _ Alpha_ 0_5.png'']
        else Inl (OSError ''No such file or directory'')),
      os_isdir = (\<lambda>p. p = ''/data/F1'' \<or> p = ''/data/F2''),
      os_makedirs = (\<lambda>p. None),
      write_text = (\<lambda>p t. None)\<rparr>"

definition session_swapped :: session_state where
  "session_swapped =
     \<lparr>state_initialized = True,
      questions =
        [\<lparr>q_folder = ''F2'', q_path = ''/data/F2'',
          q_images = [''No Intervension _ Alpha_ 0_5.png'']\<rparr>,
         \<lparr>q_folder = ''F1'', q_path = ''/data/F1'',
          q_images = [''No Intervension _ Alpha_ 0_5.png'']\<rparr>],
      current_idx = 0, participant_name = ''name'', answers = Map.empty,
      widgets = Map.empty\<rparr>"

subsection \<open>Sessions a participant can reach\<close>


subsection \<open>Catalog loader\<close>

text \<open>
  Claim C4. For every root and every folder path, \<open>list_folders\<close> and \<open>list_images\<close>
  return a list and never an exception; when \<open>os.listdir\<close> raises, the list they return is
  empty.
\<close>

theorem list_helpers_never_raise:
  "(\<exists>xs. list_folders fs root = Inr xs) \<and>
   (\<exists>ys. list_images fs folder_path = Inr ys) \<and>
   (os_listdir fs root = Inl e \<longrightarrow> list_folders fs root = Inr []) \<and>
   (os_listdir fs folder_path = Inl e' \<longrightarrow> list_images fs folder_path = Inr [])"
  by (simp add: list_folders_def list_images_def try_except_def split: sum.splits)

theorem list_helpers_never_raise_witness:
  "os_listdir broken_fs ''/missing'' = Inl (OSError ''No such file or directory'') \<and>
   list_folders broken_fs ''/missing'' = Inr [] \<and>
   list_images broken_fs ''/missing'' = Inr []"
  using list_helpers_never_raise [of broken_fs "''/missing''" "''/missing''"
      "OSError ''No such file or directory''" "OSError ''No such file or directory''"]
  by (simp add: broken_fs_def)

subsection \<open>Navigation\<close>

text \<open>
  Claim C8. In an initialised session with at least one question, a script run gets past
  the guards and leaves \<open>current_idx\<close> between \<open>0\<close> and \<open>len(questions) - 1\<close>; from there
  Next adds one to the index, except at the last question, where it changes nothing, and
  Previous subtracts one, except at index \<open>0\<close>, where it changes nothing; both leave the
  index in the same range.
\<close>

theorem navigation_index_in_range:
  assumes "state_initialized st" and "questions st \<noteq> []"
  shows "\<exists>st1. render_nav st = Some st1 \<and>
     questions st1 = questions st \<and>
     0 \<le> current_idx st1 \<and> current_idx st1 \<le> int (length (questions st1)) - 1 \<and>
     current_idx (click_next st1) =
       (if current_idx st1 = int (length (questions st1)) - 1 then current_idx st1
        else current_idx st1 + 1) \<and>
     current_idx (click_previous st1) =
       (if current_idx st1 = 0 then 0 else current_idx st1 - 1) \<and>
     0 \<le> current_idx (click_next st1) \<and>
     current_idx (click_next st1) \<le> int (length (questions st1)) - 1 \<and>
     0 \<le> current_idx (click_previous st1) \<and>
     current_idx (click_previous st1) \<le> int (length (questions st1)) - 1"
proof -
  from assms(2) have pos: "1 \<le> int (length (questions st))"
    by (cases "questions st") simp_all
  with assms show ?thesis
    unfolding render_nav_def click_next_def click_previous_def Let_def
    by (auto simp: min_def max_def)
qed

theorem navigation_index_in_range_witness:
  "state_initialized (session_F1_F2\<lparr>current_idx := 7\<rparr>) \<and>
   questions (session_F1_F2\<lparr>current_idx := 7\<rparr>) \<noteq> [] \<and>
   (\<exists>st1. render_nav (session_F1_F2\<lparr>current_idx := 7\<rparr>) = Some st1 \<and>
      current_idx st1 = 1 \<and> current_idx (click_next st1) = 1 \<and>
      current_idx (click_previous st1) = 0)"
proof -
  have init: "state_initialized (session_F1_F2\<lparr>current_idx := 7\<rparr>)"
    by (simp add: session_F1_F2_def)
  have nonempty: "questions (session_F1_F2\<lparr>current_idx := 7\<rparr>) \<noteq> []"
    by (simp add: session_F1_F2_def)
  from navigation_index_in_range [OF init nonempty]
  obtain st1 where st1: "render_nav (session_F1_F2\<lparr>current_idx := 7\<rparr>) = Some st1"
    and nxt: "current_idx (click_next st1) =
       (if current_idx st1 = int (length (questions st1)) - 1 then current_idx st1
        else current_idx st1 + 1)"
    and prv: "current_idx (click_previous st1) =
       (if current_idx st1 = 0 then 0 else current_idx st1 - 1)"
    by blast
  from st1 have idx: "current_idx st1 = 1" and len: "length (questions st1) = 2"
    by (auto simp: render_nav_def session_F1_F2_def Let_def)
  from nxt prv idx len have "current_idx (click_next st1) = 1 \<and> current_idx (click_previous st1) = 0"
    by simp
  with init nonempty st1 idx show ?thesis by blast
qed

subsection \<open>Export\<close>

lemma results_loop_append:
  "results_loop name amap qs acc =
     (case results_loop name amap qs [] of Inl e \<Rightarrow> Inl e | Inr rows \<Rightarrow> Inr (acc @ rows))"
proof (induction qs arbitrary: acc)
  case Nil
  show ?case by simp
next
  case (Cons qd rest)
  show ?case
  proof (cases "result_row_of name amap qd")
    case (Inl e)
    then show ?thesis by simp
  next
    case (Inr row)
    then show ?thesis
      using Cons.IH [of "acc @ [row]"] Cons.IH [of "[row]"]
      by (simp split: sum.splits)
  qed
qed


lemma results_loop_Cons:
  "results_loop name amap (qd # rest) [] =
     (case result_row_of name amap qd of
        Inl e \<Rightarrow> Inl e
      | Inr row \<Rightarrow>
          (case results_loop name amap rest [] of
             Inl e \<Rightarrow> Inl e
           | Inr rows \<Rightarrow> Inr (row # rows)))"
  using results_loop_append [of name amap rest "[row]" for row]
  by (simp split: sum.splits)

lemma results_loop_rows:
  "results_loop name amap qs [] = Inr rows \<Longrightarrow>
   list_all2 (\<lambda>qd row. result_row_of name amap qd = Inr row) qs rows"
proof (induction qs arbitrary: rows)
  case Nil
  then show ?case by simp
next
  case (Cons qd rest)
  from Cons.prems obtain row rows' where
    "result_row_of name amap qd = Inr row" "results_loop name amap rest [] = Inr rows'"
    "rows = row # rows'"
    by (auto simp: results_loop_Cons simp del: results_loop.simps split: sum.splits)
  with Cons.IH [of rows'] show ?case by simp
qed

lemma results_rows_nth:
  assumes "results st = Inr rows"
  shows "length rows = length (questions st)"
    and "i < length (questions st) \<Longrightarrow>
         result_row_of (participant_name st) (answers st) (questions st ! i) = Inr (rows ! i)"
  using results_loop_rows [OF assms [unfolded results_def]]
  by (auto simp: list_all2_conv_all_nth)

text \<open>
  Claim C7. \<open>_select_worst\<close> with image \<open>f\<close> records \<open>WorstEqual\<close> over the images of the
  folder other than \<open>f\<close>. When the export returns its rows, the row of a question whose
  answer is \<open>WorstEqual others\<close> has the selected file "equal score for a and b", with \<open>a\<close>
  and \<open>b\<close> the first two entries, when \<open>others\<close> has two entries or more, and "equal score
  for a" when it has one. For the images \<open>a.png\<close>, \<open>b.png\<close> and worst image \<open>a.png\<close> the
  selected file is "equal score for b.png".
\<close>

theorem worst_equal_export:
  assumes "results st = Inr rows" and "i < length (questions st)"
    and "answers st (q_folder (questions st ! i)) = Some (WorstEqual others)"
    and "others \<noteq> []"
  shows "row_selected_file (rows ! i) =
           (if length others \<ge> 2
            then ''equal score for '' @ others ! 0 @ '' and '' @ others ! 1
            else ''equal score for '' @ others ! 0) \<and>
         answers (select_worst fo imgs f st0) fo = Some (WorstEqual (filter (\<lambda>g. g \<noteq> f) imgs))"
proof -
  from results_rows_nth(2) [OF assms(1,2)] assms(3)
  have "rows ! i = \<lparr>row_participant = participant_name st,
          row_folder = q_folder (questions st ! i),
          row_selected_file =
            (if length others \<ge> 2
             then ''equal score for '' @ others ! 0 @ '' and '' @ others ! 1
             else ''equal score for '' @ str_join '' and '' others)\<rparr>"
    by (simp add: result_row_of_def Let_def)
  moreover have "str_join '' and '' others = others ! 0" if "\<not> length others \<ge> 2"
  proof (cases others)
    case Nil
    with assms(4) show ?thesis by simp
  next
    case (Cons a rest)
    with that have "rest = []" by (cases rest) simp_all
    with Cons show ?thesis by simp
  qed
  ultimately show ?thesis
    by (simp add: select_worst_def Let_def)
qed

lemma session_ab_results:
  "results (select_worst ''F'' [''a.png'', ''b.png''] ''a.png'' session_ab) =
     Inr [\<lparr>row_participant = ''name'', row_folder = ''F'',
           row_selected_file = ''equal score for b.png''\<rparr>]"
  by (simp add: results_def result_row_of_def select_worst_def session_ab_def)

theorem worst_equal_export_witness:
  "results (select_worst ''F'' [''a.png'', ''b.png''] ''a.png'' session_ab) =
     Inr [\<lparr>row_participant = ''name'', row_folder = ''F'',
           row_selected_file = ''equal score for b.png''\<rparr>] \<and>
   (0::nat) < length (questions (select_worst ''F'' [''a.png'', ''b.png''] ''a.png'' session_ab)) \<and>
   answers (select_worst ''F'' [''a.png'', ''b.png''] ''a.png'' session_ab)
     (q_folder (questions (select_worst ''F'' [''a.png'', ''b.png''] ''a.png'' session_ab) ! 0))
     = Some (WorstEqual [''b.png'']) \<and>
   [''b.png''] \<noteq> [] \<and>
   row_selected_file
     ([\<lparr>row_participant = ''name'', row_folder = ''F'',
        row_selected_file = ''equal score for b.png''\<rparr>] ! 0) = ''equal score for b.png''"
proof -
  let ?st = "select_worst ''F'' [''a.png'', ''b.png''] ''a.png'' session_ab"
  have r: "results ?st = Inr [\<lparr>row_participant = ''name'', row_folder = ''F'',
           row_selected_file = ''equal score for b.png''\<rparr>]"
    by (rule session_ab_results)
  have i: "0 < length (questions ?st)"
    by (simp add: select_worst_def session_ab_def)
  have a: "answers ?st (q_folder (questions ?st ! 0)) = Some (WorstEqual [''b.png''])"
    by (simp add: select_worst_def session_ab_def)
  have n: "[''b.png''] \<noteq> []" by simp
  from worst_equal_export [OF r i a n] r i a show ?thesis by simp
qed

text \<open>
  Claim C10. For a folder whose only image is \<open>img\<close>, \<open>_select_worst\<close> with \<open>img\<close> records
  \<open>WorstEqual\<close> with an empty list, and the export row of that folder has the selected file
  "equal score for " with no file name after it.
\<close>

theorem single_image_worst_export:
  "answers (select_worst fo [img] img st) fo = Some (WorstEqual []) \<and>
   result_row_of (participant_name (select_worst fo [img] img st))
       (answers (select_worst fo [img] img st))
       \<lparr>q_folder = fo, q_path = p, q_images = [img]\<rparr> =
     Inr \<lparr>row_participant = participant_name st, row_folder = fo,
          row_selected_file = ''equal score for ''\<rparr> \<and>
   results (select_worst fo [img] img
       (st\<lparr>questions := [\<lparr>q_folder = fo, q_path = p, q_images = [img]\<rparr>]\<rparr>)) =
     Inr [\<lparr>row_participant = participant_name st, row_folder = fo,
           row_selected_file = ''equal score for ''\<rparr>]"
  by (simp add: select_worst_def result_row_of_def results_def)

subsection \<open>Selection callbacks\<close>

lemma set_keys_other: "k \<notin> fst ` set kvs \<Longrightarrow> set_keys kvs w k = w k"
  by (induction kvs arbitrary: w) auto

lemma set_keys_map:
  "x \<in> set xs \<Longrightarrow> inj key \<Longrightarrow> set_keys (map (\<lambda>y. (key y, val y)) xs) w (key x) = Some (val x)"
proof (induction xs arbitrary: w)
  case Nil
  then show ?case by simp
next
  case (Cons y ys)
  show ?case
  proof (cases "x \<in> set ys")
    case True
    with Cons show ?thesis by simp
  next
    case False
    with Cons.prems have "x = y" by simp
    moreover from False have "key x \<notin> fst ` set (map (\<lambda>y. (key y, val y)) ys)"
      by (auto simp: inj_eq [OF Cons.prems(2)])
    ultimately show ?thesis by (simp add: set_keys_other)
  qed
qed

lemma zip_map_self: "zip (map g xs) xs = map (\<lambda>x. (g x, x)) xs"
  by (induction xs) simp_all

lemma inj_best_key: "inj (best_key fo)"
  by (simp add: inj_def best_key_def)

lemma inj_worst_key: "inj (worst_key fo)"
  by (simp add: inj_def worst_key_def)

lemma key_distinct:
  "best_key fo f \<noteq> worst_key fo g" "best_key fo f \<noteq> none_key fo" "worst_key fo f \<noteq> none_key fo"
  by (simp_all add: best_key_def worst_key_def none_key_def)

lemma worst_not_best: "worst_key fo g \<noteq> best_key fo f"
  by (simp add: best_key_def worst_key_def)

lemma select_best_widgets:
  "f \<in> set imgs \<Longrightarrow> widgets (select_best fo imgs c st) (best_key fo f) = Some (f = c)"
  "f \<in> set imgs \<Longrightarrow> widgets (select_best fo imgs c st) (worst_key fo f) = Some False"
  "widgets (select_best fo imgs c st) (none_key fo) = Some False"
proof -
  have b: "map (\<lambda>(k, fname). (k, fname = c)) (zip (map (best_key fo) imgs) imgs) =
             map (\<lambda>y. (best_key fo y, y = c)) imgs"
    by (simp add: zip_map_self)
  have w: "map (\<lambda>k. (k, False)) (map (worst_key fo) imgs) = map (\<lambda>y. (worst_key fo y, False)) imgs"
    by (simp add: comp_def)
  have notin: "best_key fo f \<notin> fst ` set (map (\<lambda>y. (worst_key fo y, False)) imgs)"
    using key_distinct(1) by auto
  show "f \<in> set imgs \<Longrightarrow> widgets (select_best fo imgs c st) (best_key fo f) = Some (f = c)"
    unfolding select_best_def Let_def b w
    using key_distinct(2) [of fo f] notin
    by (simp add: set_keys_other set_keys_map [OF _ inj_best_key])
  show "f \<in> set imgs \<Longrightarrow> widgets (select_best fo imgs c st) (worst_key fo f) = Some False"
    unfolding select_best_def Let_def b w
    using key_distinct(3) [of fo f]
    by (simp add: set_keys_map [OF _ inj_worst_key])
  show "widgets (select_best fo imgs c st) (none_key fo) = Some False"
    by (simp add: select_best_def Let_def)
qed


lemma set_keys_append: "set_keys (kvs @ kvs') w = set_keys kvs' (set_keys kvs w)"
  by (induction kvs arbitrary: w) auto

lemma select_worst_widgets:
  "f \<in> set imgs \<Longrightarrow> widgets (select_worst fo imgs c st) (worst_key fo f) = Some (f = c)"
  "f \<in> set imgs \<Longrightarrow> widgets (select_worst fo imgs c st) (best_key fo f) = Some False"
  "widgets (select_worst fo imgs c st) (none_key fo) = Some False"
proof -
  have w: "map (\<lambda>(k, fname). (k, fname = c)) (zip (map (worst_key fo) imgs) imgs) =
             map (\<lambda>y. (worst_key fo y, y = c)) imgs"
    by (simp add: zip_map_self)
  have b: "map (\<lambda>k. (k, False)) (map (best_key fo) imgs) = map (\<lambda>y. (best_key fo y, False)) imgs"
    by (simp add: comp_def)
  have notin: "worst_key fo f \<notin> fst ` set (map (\<lambda>y. (best_key fo y, False)) imgs)"
    using worst_not_best by auto
  show "f \<in> set imgs \<Longrightarrow> widgets (select_worst fo imgs c st) (worst_key fo f) = Some (f = c)"
    unfolding select_worst_def Let_def b w
    using key_distinct(3) [of fo f] notin
    by (simp add: set_keys_other set_keys_map [OF _ inj_worst_key])
  show "f \<in> set imgs \<Longrightarrow> widgets (select_worst fo imgs c st) (best_key fo f) = Some False"
    unfolding select_worst_def Let_def b w
    using key_distinct(2) [of fo f]
    by (simp add: set_keys_map [OF _ inj_best_key])
  show "widgets (select_worst fo imgs c st) (none_key fo) = Some False"
    by (simp add: select_worst_def Let_def)
qed

lemma select_none_widgets:
  "f \<in> set imgs \<Longrightarrow> widgets (select_none fo imgs st) (best_key fo f) = Some False"
  "f \<in> set imgs \<Longrightarrow> widgets (select_none fo imgs st) (worst_key fo f) = Some False"
  "widgets (select_none fo imgs st) (none_key fo) = Some True"
proof -
  have l: "map (\<lambda>k. (k, False)) (map (best_key fo) imgs @ map (worst_key fo) imgs) =
             map (\<lambda>y. (best_key fo y, False)) imgs @ map (\<lambda>y. (worst_key fo y, False)) imgs"
    by (simp add: comp_def)
  have notin: "best_key fo f \<notin> fst ` set (map (\<lambda>y. (worst_key fo y, False)) imgs)"
    using key_distinct(1) by auto
  show "f \<in> set imgs \<Longrightarrow> widgets (select_none fo imgs st) (best_key fo f) = Some False"
    unfolding select_none_def Let_def l set_keys_append
    using key_distinct(2) [of fo f] notin
    by (simp add: set_keys_other set_keys_map [OF _ inj_best_key])
  show "f \<in> set imgs \<Longrightarrow> widgets (select_none fo imgs st) (worst_key fo f) = Some False"
    unfolding select_none_def Let_def l set_keys_append
    using key_distinct(3) [of fo f]
    by (simp add: set_keys_map [OF _ inj_worst_key])
  show "widgets (select_none fo imgs st) (none_key fo) = Some True"
    by (simp add: select_none_def Let_def)
qed

lemma filter_cong_set: "(\<And>x. x \<in> set xs \<Longrightarrow> P x = Q x) \<Longrightarrow> filter P xs = filter Q xs"
  by (induction xs) auto

lemma length_filter_eq_distinct: "distinct xs \<Longrightarrow> length (filter (\<lambda>f. f = x) xs) \<le> 1"
  by (induction xs) (auto simp: filter_empty_conv)

lemma marks_select_best:
  "best_marks fo imgs (widgets (select_best fo imgs c st)) = filter (\<lambda>f. f = c) (remdups imgs)"
  "worst_marks fo imgs (widgets (select_best fo imgs c st)) = []"
  "\<not> is_on (widgets (select_best fo imgs c st)) (none_key fo)"
  unfolding best_marks_def worst_marks_def is_on_def
  by (auto simp: select_best_widgets filter_empty_conv intro!: filter_cong_set)

lemma marks_select_worst:
  "worst_marks fo imgs (widgets (select_worst fo imgs c st)) = filter (\<lambda>f. f = c) (remdups imgs)"
  "best_marks fo imgs (widgets (select_worst fo imgs c st)) = []"
  "\<not> is_on (widgets (select_worst fo imgs c st)) (none_key fo)"
  unfolding best_marks_def worst_marks_def is_on_def
  by (auto simp: select_worst_widgets filter_empty_conv intro!: filter_cong_set)

lemma marks_select_none:
  "best_marks fo imgs (widgets (select_none fo imgs st)) = []"
  "worst_marks fo imgs (widgets (select_none fo imgs st)) = []"
  "is_on (widgets (select_none fo imgs st)) (none_key fo)"
  unfolding best_marks_def worst_marks_def is_on_def
  by (auto simp: select_none_widgets filter_empty_conv)

lemma answers_select:
  "answers (select_best fo imgs c st) = (answers st)(fo \<mapsto> Best c)"
  "answers (select_worst fo imgs c st) = (answers st)(fo \<mapsto> WorstEqual (filter (\<lambda>f. f \<noteq> c) imgs))"
  "answers (select_none fo imgs st) = (answers st)(fo \<mapsto> NoneMode)"
  by (simp_all add: select_best_def select_worst_def select_none_def Let_def)

text \<open>
  Claim C6. The answers are a dictionary keyed by folder, so a folder has one answer at
  most, and each callback overwrites the entry of its folder and no other: \<open>Best x\<close> then
  \<open>Best y\<close> leaves \<open>Best y\<close>. After \<open>_select_best\<close> the only control of the question that can
  be on is the "best" control of the chosen image, after \<open>_select_worst\<close> the "worst" control
  of the chosen image, after \<open>_select_none\<close> the "none" control: never two controls at once.
\<close>

theorem selection_exclusive:
  "answers (select_best fo imgs y (select_best fo imgs x st)) = (answers st)(fo \<mapsto> Best y) \<and>
   answers (select_best fo imgs x st) = (answers st)(fo \<mapsto> Best x) \<and>
   answers (select_worst fo imgs x st) =
     (answers st)(fo \<mapsto> WorstEqual (filter (\<lambda>f. f \<noteq> x) imgs)) \<and>
   answers (select_none fo imgs st) = (answers st)(fo \<mapsto> NoneMode) \<and>
   best_marks fo imgs (widgets (select_best fo imgs x st)) = filter (\<lambda>f. f = x) (remdups imgs) \<and>
   worst_marks fo imgs (widgets (select_best fo imgs x st)) = [] \<and>
   \<not> is_on (widgets (select_best fo imgs x st)) (none_key fo) \<and>
   worst_marks fo imgs (widgets (select_worst fo imgs x st)) = filter (\<lambda>f. f = x) (remdups imgs) \<and>
   best_marks fo imgs (widgets (select_worst fo imgs x st)) = [] \<and>
   \<not> is_on (widgets (select_worst fo imgs x st)) (none_key fo) \<and>
   best_marks fo imgs (widgets (select_none fo imgs st)) = [] \<and>
   worst_marks fo imgs (widgets (select_none fo imgs st)) = [] \<and>
   is_on (widgets (select_none fo imgs st)) (none_key fo) \<and>
   controls_on fo imgs (widgets (select_best fo imgs x st)) \<le> 1 \<and>
   controls_on fo imgs (widgets (select_worst fo imgs x st)) \<le> 1 \<and>
   controls_on fo imgs (widgets (select_none fo imgs st)) \<le> 1"
proof -
  have one: "length (filter (\<lambda>f. f = x) (remdups imgs)) \<le> 1"
    by (rule length_filter_eq_distinct) simp
  have twice: "answers (select_best fo imgs y (select_best fo imgs x st)) = (answers st)(fo \<mapsto> Best y)"
    by (simp add: answers_select)
  have cb: "controls_on fo imgs (widgets (select_best fo imgs x st)) \<le> 1"
    using one by (simp add: controls_on_def marks_select_best)
  have cw: "controls_on fo imgs (widgets (select_worst fo imgs x st)) \<le> 1"
    using one by (simp add: controls_on_def marks_select_worst)
  have cn: "controls_on fo imgs (widgets (select_none fo imgs st)) \<le> 1"
    by (simp add: controls_on_def marks_select_none)
  from twice cb cw cn show ?thesis
    by (simp only: answers_select marks_select_best marks_select_worst marks_select_none
        simp_thms)
qed

subsection \<open>Start / Refresh\<close>

lemma qualifies_no_intervension: "qualifies ''No Intervension _ Alpha_ 0_5.png''"
  by (simp add: qualifies_def splitext_def rfind_def lower_def lower_char_def IMG_EXTS_def ALLOWED_IMAGES_def Let_def)

lemma qualifies_mirror_change: "qualifies ''Mirror Change Top Layers _ Alpha_ 0_5.png''"
  by (simp add: qualifies_def splitext_def rfind_def lower_def lower_char_def IMG_EXTS_def ALLOWED_IMAGES_def Let_def)

lemma not_qualifies_other: "\<not> qualifies ''other.png''" "\<not> qualifies ''notes.txt''"
  by (simp_all add: qualifies_def ALLOWED_IMAGES_def Let_def)

lemma fs_AB_folders: "list_folders fs_AB ''/data'' = Inr [''A'', ''B'']"
  by (simp add: list_folders_def try_except_def fs_AB_def path_join_def)

lemma fs_AB_images_A: "list_images fs_AB ''/data/A'' = Inr [''Mirror Change Top Layers _ Alpha_ 0_5.png'', ''No Intervension _ Alpha_ 0_5.png'']"
  by (simp add: list_images_def try_except_def fs_AB_def qualifies_no_intervension qualifies_mirror_change not_qualifies_other)

lemma fs_AB_images_B: "list_images fs_AB ''/data/B'' = Inr []"
  by (simp add: list_images_def try_except_def fs_AB_def not_qualifies_other)

lemma fs_AB_start:
  "start_refresh reversing_shuffle fs_AB ''/data'' ''name'' True True session0 =
     Inr \<lparr>state_initialized = True,
          questions = [\<lparr>q_folder = ''A'', q_path = ''/data/A'',
             q_images = [''No Intervension _ Alpha_ 0_5.png'',
                         ''Mirror Change Top Layers _ Alpha_ 0_5.png'']\<rparr>],
          current_idx = 0, participant_name = ''name'', answers = Map.empty,
          widgets = Map.empty\<rparr>"
  by (simp add: start_refresh_def fs_AB_folders fs_AB_images_A fs_AB_images_B reversing_shuffle_def
      session0_def path_join_def)


lemma list_folders_listed:
  "list_folders fs root =
     Inr (sort (filter (\<lambda>d. os_isdir fs (path_join root d)) (listed_names fs root)))"
  by (simp add: list_folders_def try_except_def listed_names_def split: sum.splits)

lemma list_images_listed:
  "list_images fs p = Inr (sort (filter qualifies (listed_names fs p)))"
  by (simp add: list_images_def try_except_def listed_names_def split: sum.splits)

lemma build_questions_eq:
  "build_questions shuffle fs base_dir name si folders acc =
     Inr (acc @ filter (\<lambda>q. q_images q \<noteq> [])
                  (map (question_for shuffle fs base_dir name si) folders))"
proof (induction folders arbitrary: acc)
  case Nil
  show ?case by simp
next
  case (Cons fo rest)
  show ?case
    by (simp add: Cons.IH list_images_listed question_for_def Let_def)
qed

lemma start_refresh_eq:
  "start_refresh shuffle fs root_dir name sq si st =
     Inr (st\<lparr>questions :=
               filter (\<lambda>q. q_images q \<noteq> [])
                 (map (question_for shuffle fs root_dir name si)
                    (let sorted_folders =
                           sort (filter (\<lambda>d. os_isdir fs (path_join root_dir d))
                                   (listed_names fs root_dir))
                     in if sq then shuffle (name @ ''|questions'') sorted_folders
                        else sorted_folders)),
             current_idx := 0, participant_name := name, answers := Map.empty,
             state_initialized := True\<rparr>)"
  by (simp add: start_refresh_def list_folders_listed build_questions_eq Let_def)

lemma list_all2_map_filter:
  "list_all2 (\<lambda>q x. q = g x) (filter P (map g xs)) (filter (\<lambda>x. P (g x)) xs)"
  by (induction xs) simp_all

text \<open>
  Claim C5. With both randomize options on, Start / Refresh returns a question list that
  is the same whatever the session state before the run. Its folders are, in order, those
  of the shuffle seeded with \<open>name|questions\<close> of the sorted folder list (the folders whose
  image list is empty left out), and the images of the question of folder \<open>fo\<close> are the
  shuffle seeded with \<open>name|fo\<close> of the sorted image list of that folder. The shuffle is a
  function of the seed string and the list.
\<close>

theorem start_refresh_deterministic:
  "\<exists>folders qs.
     list_folders fs root_dir = Inr folders \<and>
     (\<forall>st. \<exists>st'. start_refresh shuffle fs root_dir name True True st = Inr st' \<and>
                 questions st' = qs) \<and>
     list_all2
       (\<lambda>q fo. q_folder q = fo \<and>
          (\<exists>listed. list_images fs (path_join root_dir fo) = Inr listed \<and>
             q_images q = shuffle (name @ ''|'' @ fo) listed))
       qs
       (filter
          (\<lambda>fo. \<exists>listed. list_images fs (path_join root_dir fo) = Inr listed \<and>
             shuffle (name @ ''|'' @ fo) listed \<noteq> [])
          (shuffle (name @ ''|questions'') folders))"
proof -
  let ?folders = "sort (filter (\<lambda>d. os_isdir fs (path_join root_dir d)) (listed_names fs root_dir))"
  let ?g = "question_for shuffle fs root_dir name True"
  let ?shuffled = "shuffle (name @ ''|questions'') ?folders"
  let ?qs = "filter (\<lambda>q. q_images q \<noteq> []) (map ?g ?shuffled)"
  have keep: "(\<lambda>fo. \<exists>listed. list_images fs (path_join root_dir fo) = Inr listed \<and>
             shuffle (name @ ''|'' @ fo) listed \<noteq> []) = (\<lambda>fo. q_images (?g fo) \<noteq> [])"
    by (simp add: list_images_listed question_for_def)
  have "list_all2 (\<lambda>q fo. q = ?g fo) ?qs (filter (\<lambda>fo. q_images (?g fo) \<noteq> []) ?shuffled)"
    by (rule list_all2_map_filter)
  then have "list_all2
       (\<lambda>q fo. q_folder q = fo \<and>
          (\<exists>listed. list_images fs (path_join root_dir fo) = Inr listed \<and>
             q_images q = shuffle (name @ ''|'' @ fo) listed))
       ?qs (filter (\<lambda>fo. q_images (?g fo) \<noteq> []) ?shuffled)"
    by (rule list_all2_mono) (simp add: list_images_listed question_for_def)
  moreover have "\<forall>st. \<exists>st'. start_refresh shuffle fs root_dir name True True st = Inr st' \<and>
                 questions st' = ?qs"
    by (simp add: start_refresh_eq)
  moreover have "list_folders fs root_dir = Inr ?folders"
    by (rule list_folders_listed)
  ultimately show ?thesis
    unfolding keep by blast
qed


lemma map_filter_map:
  "(\<And>x. h (g x) = x) \<Longrightarrow> map h (filter P (map g xs)) = filter (\<lambda>x. P (g x)) xs"
  by (induction xs) simp_all

lemma set_question_images:
  assumes "\<And>seed xs. set (shuffle seed xs) = set xs"
  shows "set (q_images (question_for shuffle fs base_dir name si fo)) =
           {f \<in> set (listed_names fs (path_join base_dir fo)). qualifies f}"
  using assms by (auto simp: question_for_def Let_def)

text \<open>
  Claim C9. For a shuffle that keeps the elements of the list, and whatever the two
  randomize options, Start / Refresh returns a session in which every question has the
  path of its folder under the root, a non-empty image list, and as images exactly the
  names listed in that folder that are in the allowlist and have an extension of the image
  set; the folders of the questions are exactly the sub-folders of the root with one such
  image at least. For the root with folder \<open>A\<close> (both allowlisted files) and folder \<open>B\<close>
  (neither) the only question is \<open>A\<close>.
\<close>

theorem questions_hold_allowlisted_images:
  assumes perm: "\<And>seed xs. set (shuffle seed xs) = set xs"
  shows "\<exists>st'. start_refresh shuffle fs root_dir name sq si st = Inr st' \<and>
     (\<forall>q \<in> set (questions st').
        q_path q = path_join root_dir (q_folder q) \<and>
        q_images q \<noteq> [] \<and>
        set (q_images q) =
          {f \<in> set (listed_names fs (q_path q)).
             f \<in> ALLOWED_IMAGES \<and> lower (snd (splitext f)) \<in> IMG_EXTS}) \<and>
     set (map q_folder (questions st')) =
       {fo \<in> set (listed_names fs root_dir).
          os_isdir fs (path_join root_dir fo) \<and>
          (\<exists>f \<in> set (listed_names fs (path_join root_dir fo)).
             f \<in> ALLOWED_IMAGES \<and> lower (snd (splitext f)) \<in> IMG_EXTS)}"
proof -
  let ?sorted = "sort (filter (\<lambda>d. os_isdir fs (path_join root_dir d)) (listed_names fs root_dir))"
  let ?folders = "if sq then shuffle (name @ ''|questions'') ?sorted else ?sorted"
  let ?g = "question_for shuffle fs root_dir name si"
  let ?qs = "filter (\<lambda>q. q_images q \<noteq> []) (map ?g ?folders)"
  let ?st' = "st\<lparr>questions := ?qs, current_idx := 0, participant_name := name,
                 answers := Map.empty, state_initialized := True\<rparr>"
  have run: "start_refresh shuffle fs root_dir name sq si st = Inr ?st'"
    by (simp add: start_refresh_eq Let_def)
  have qual: "qualifies f \<longleftrightarrow> f \<in> ALLOWED_IMAGES \<and> lower (snd (splitext f)) \<in> IMG_EXTS" for f
    by (auto simp: qualifies_def Let_def)
  have imgs: "set (q_images (?g fo)) =
      {f \<in> set (listed_names fs (path_join root_dir fo)).
         f \<in> ALLOWED_IMAGES \<and> lower (snd (splitext f)) \<in> IMG_EXTS}" for fo
    using set_question_images [OF perm] by (simp add: qual)
  have each: "\<forall>q \<in> set ?qs.
        q_path q = path_join root_dir (q_folder q) \<and>
        q_images q \<noteq> [] \<and>
        set (q_images q) =
          {f \<in> set (listed_names fs (q_path q)).
             f \<in> ALLOWED_IMAGES \<and> lower (snd (splitext f)) \<in> IMG_EXTS}"
  proof
    fix q assume "q \<in> set ?qs"
    then obtain fo where q: "q = ?g fo" and ne: "q_images q \<noteq> []" by auto
    have "q_folder q = fo" "q_path q = path_join root_dir fo"
      by (simp_all add: q question_for_def)
    with imgs [of fo] ne q show "q_path q = path_join root_dir (q_folder q) \<and>
        q_images q \<noteq> [] \<and>
        set (q_images q) =
          {f \<in> set (listed_names fs (q_path q)).
             f \<in> ALLOWED_IMAGES \<and> lower (snd (splitext f)) \<in> IMG_EXTS}"
      by simp
  qed
  have fset: "set ?folders = {fo \<in> set (listed_names fs root_dir). os_isdir fs (path_join root_dir fo)}"
    using perm by auto
  have nonempty: "q_images (?g fo) \<noteq> [] \<longleftrightarrow>
      (\<exists>f \<in> set (listed_names fs (path_join root_dir fo)).
         f \<in> ALLOWED_IMAGES \<and> lower (snd (splitext f)) \<in> IMG_EXTS)" for fo
  proof -
    have "q_images (?g fo) \<noteq> [] \<longleftrightarrow> set (q_images (?g fo)) \<noteq> {}" by simp
    also have "\<dots> \<longleftrightarrow> (\<exists>f \<in> set (listed_names fs (path_join root_dir fo)).
         f \<in> ALLOWED_IMAGES \<and> lower (snd (splitext f)) \<in> IMG_EXTS)"
      unfolding imgs by blast
    finally show ?thesis .
  qed
  have folder_g: "q_folder (?g fo) = fo" for fo
    by (simp add: question_for_def)
  have "map q_folder ?qs = filter (\<lambda>fo. q_images (?g fo) \<noteq> []) ?folders"
    by (rule map_filter_map) (rule folder_g)
  then have "set (map q_folder ?qs) = {fo \<in> set ?folders. q_images (?g fo) \<noteq> []}"
    by simp
  then have folders: "set (map q_folder ?qs) =
       {fo \<in> set (listed_names fs root_dir).
          os_isdir fs (path_join root_dir fo) \<and>
          (\<exists>f \<in> set (listed_names fs (path_join root_dir fo)).
             f \<in> ALLOWED_IMAGES \<and> lower (snd (splitext f)) \<in> IMG_EXTS)}"
    unfolding fset nonempty by blast
  show ?thesis
  proof (intro exI conjI)
    show "start_refresh shuffle fs root_dir name sq si st = Inr ?st'" by (rule run)
    show "\<forall>q \<in> set (questions ?st').
        q_path q = path_join root_dir (q_folder q) \<and>
        q_images q \<noteq> [] \<and>
        set (q_images q) =
          {f \<in> set (listed_names fs (q_path q)).
             f \<in> ALLOWED_IMAGES \<and> lower (snd (splitext f)) \<in> IMG_EXTS}"
      using each by simp
    show "set (map q_folder (questions ?st')) =
       {fo \<in> set (listed_names fs root_dir).
          os_isdir fs (path_join root_dir fo) \<and>
          (\<exists>f \<in> set (listed_names fs (path_join root_dir fo)).
             f \<in> ALLOWED_IMAGES \<and> lower (snd (splitext f)) \<in> IMG_EXTS)}"
      using folders by simp
  qed
qed

theorem questions_hold_allowlisted_images_witness:
  "(\<forall>seed xs. set (reversing_shuffle seed xs) = set xs) \<and>
   (\<exists>st'. start_refresh reversing_shuffle fs_AB ''/data'' ''name'' True True session0 = Inr st' \<and>
      map q_folder (questions st') = [''A''] \<and>
      set (map q_folder (questions st')) =
        {fo \<in> set (listed_names fs_AB ''/data'').
           os_isdir fs_AB (path_join ''/data'' fo) \<and>
           (\<exists>f \<in> set (listed_names fs_AB (path_join ''/data'' fo)).
              f \<in> ALLOWED_IMAGES \<and> lower (snd (splitext f)) \<in> IMG_EXTS)} \<and>
      map q_images (questions st') =
        [[''No Intervension _ Alpha_ 0_5.png'',
          ''Mirror Change Top Layers _ Alpha_ 0_5.png'']])"
proof -
  have perm: "set (reversing_shuffle seed xs) = set xs" for seed xs
    by (simp add: reversing_shuffle_def)
  from questions_hold_allowlisted_images [of reversing_shuffle fs_AB "''/data''" "''name''"
      True True session0, OF perm]
  obtain st' where
    run: "start_refresh reversing_shuffle fs_AB ''/data'' ''name'' True True session0 = Inr st'"
    and folders: "set (map q_folder (questions st')) =
        {fo \<in> set (listed_names fs_AB ''/data'').
           os_isdir fs_AB (path_join ''/data'' fo) \<and>
           (\<exists>f \<in> set (listed_names fs_AB (path_join ''/data'' fo)).
              f \<in> ALLOWED_IMAGES \<and> lower (snd (splitext f)) \<in> IMG_EXTS)}"
    by blast
  from run have "questions st' =
      [\<lparr>q_folder = ''A'', q_path = ''/data/A'',
        q_images = [''No Intervension _ Alpha_ 0_5.png'',
                    ''Mirror Change Top Layers _ Alpha_ 0_5.png'']\<rparr>]"
    unfolding fs_AB_start by auto
  then have names: "map q_folder (questions st') = [''A'']"
    and images: "map q_images (questions st') =
        [[''No Intervension _ Alpha_ 0_5.png'',
          ''Mirror Change Top Layers _ Alpha_ 0_5.png'']]"
    by simp_all
  from perm have "\<forall>seed xs. set (reversing_shuffle seed xs) = set xs" by blast
  moreover from run names folders images
  have "\<exists>st'. start_refresh reversing_shuffle fs_AB ''/data'' ''name'' True True session0 = Inr st' \<and>
      map q_folder (questions st') = [''A''] \<and>
      set (map q_folder (questions st')) =
        {fo \<in> set (listed_names fs_AB ''/data'').
           os_isdir fs_AB (path_join ''/data'' fo) \<and>
           (\<exists>f \<in> set (listed_names fs_AB (path_join ''/data'' fo)).
              f \<in> ALLOWED_IMAGES \<and> lower (snd (splitext f)) \<in> IMG_EXTS)} \<and>
      map q_images (questions st') =
        [[''No Intervension _ Alpha_ 0_5.png'',
          ''Mirror Change Top Layers _ Alpha_ 0_5.png'']]"
    by - (rule exI [of _ st'], intro conjI, assumption+)
  ultimately show ?thesis by (rule conjI)
qed

subsection \<open>Order of the export\<close>

lemma fs_two_folders: "list_folders fs_two ''/data'' = Inr [''F1'', ''F2'']"
  by (simp add: list_folders_def try_except_def fs_two_def path_join_def)

lemma fs_two_images:
  "list_images fs_two ''/data/F1'' = Inr [''No Intervension _ Alpha_ 0_5.png'']"
  "list_images fs_two ''/data/F2'' = Inr [''No Intervension _ Alpha_ 0_5.png'']"
  by (simp_all add: list_images_def try_except_def fs_two_def qualifies_no_intervension)

lemma fs_two_start:
  "start_refresh reversing_shuffle fs_two ''/data'' ''name'' True True session0 =
     Inr session_swapped"
  by (simp add: start_refresh_def fs_two_folders fs_two_images reversing_shuffle_def
      session0_def session_swapped_def path_join_def Let_def)

text \<open>
  Claim C1, as stated, fails. The sorted folder list of the root is \<open>F1\<close>, \<open>F2\<close>; the
  question shuffle swaps the two, Start / Refresh stores the questions in the shuffled
  order, and the results loop runs over that stored list: with \<open>F1\<close> answered and \<open>F2\<close> not,
  the rows come out as \<open>F2\<close>, \<open>F1\<close> and not in catalog order.
\<close>

theorem export_order_counterexample:
  "list_folders fs_two ''/data'' = Inr [''F1'', ''F2''] \<and>
   start_refresh reversing_shuffle fs_two ''/data'' ''name'' True True session0 =
     Inr session_swapped \<and>
   results (select_best ''F1'' [''No Intervension _ Alpha_ 0_5.png'']
              ''No Intervension _ Alpha_ 0_5.png'' session_swapped) =
     Inr [\<lparr>row_participant = ''name'', row_folder = ''F2'', row_selected_file = []\<rparr>,
          \<lparr>row_participant = ''name'', row_folder = ''F1'',
           row_selected_file = ''No Intervension _ Alpha_ 0_5.png''\<rparr>] \<and>
   results (select_best ''F1'' [''No Intervension _ Alpha_ 0_5.png'']
              ''No Intervension _ Alpha_ 0_5.png'' session_swapped) \<noteq>
     Inr [\<lparr>row_participant = ''name'', row_folder = ''F1'',
           row_selected_file = ''No Intervension _ Alpha_ 0_5.png''\<rparr>,
          \<lparr>row_participant = ''name'', row_folder = ''F2'', row_selected_file = []\<rparr>]"
proof -
  have "results (select_best ''F1'' [''No Intervension _ Alpha_ 0_5.png'']
              ''No Intervension _ Alpha_ 0_5.png'' session_swapped) =
     Inr [\<lparr>row_participant = ''name'', row_folder = ''F2'', row_selected_file = []\<rparr>,
          \<lparr>row_participant = ''name'', row_folder = ''F1'',
           row_selected_file = ''No Intervension _ Alpha_ 0_5.png''\<rparr>]"
    by (simp add: results_def result_row_of_def select_best_def session_swapped_def)
  then show ?thesis
    by (simp add: fs_two_folders fs_two_start)
qed

lemma result_row_of_answered:
  assumes "amap (q_folder qd) \<noteq> Some NoneMode"
  shows "\<exists>row. result_row_of name amap qd = Inr row"
proof (cases "amap (q_folder qd)")
  case None
  then show ?thesis by (simp add: result_row_of_def)
next
  case (Some a)
  with assms show ?thesis by (cases a) (simp_all add: result_row_of_def Let_def)
qed

lemma result_row_of_fields:
  assumes "result_row_of name amap qd = Inr row"
  shows "row_participant row = name" and "row_folder row = q_folder qd"
    and "amap (q_folder qd) = None \<Longrightarrow> row_selected_file row = []"
    and "amap (q_folder qd) = Some (Best f) \<Longrightarrow> row_selected_file row = f"
  using assms
  by (auto simp: result_row_of_def Let_def split: option.splits answer.splits)

lemma results_loop_answered:
  "\<forall>qd \<in> set qs. amap (q_folder qd) \<noteq> Some NoneMode \<Longrightarrow>
   \<exists>rows. results_loop name amap qs [] = Inr rows"
proof (induction qs)
  case Nil
  show ?case by simp
next
  case (Cons qd rest)
  from Cons.prems obtain row where "result_row_of name amap qd = Inr row"
    using result_row_of_answered [of amap qd name] by auto
  moreover from Cons obtain rows where "results_loop name amap rest [] = Inr rows" by auto
  ultimately show ?case
    by (simp add: results_loop_Cons del: results_loop.simps)
qed

text \<open>
  Claim C1, amended. In a session where no question has the \<open>none\<close> answer, the export
  returns one row per question in the order of the session's question list, each with the
  participant name of the session and the folder of its question, with the empty string as
  selected file for a folder without answer and the chosen file for a \<open>Best\<close> answer. The
  question list keeps the order of the folder list that Start / Refresh ran over: the
  sorted folder list when the question shuffle is off, its shuffle seeded with
  \<open>name|questions\<close> when it is on. With \<open>F1\<close> answered \<open>Best img1.png\<close>, \<open>F2\<close> without answer
  and the session order \<open>F1\<close>, \<open>F2\<close>, the rows are \<open>(name, F1, img1.png)\<close> and
  \<open>(name, F2, "")\<close>.
\<close>

theorem export_rows_follow_question_list:
  assumes "\<forall>qd \<in> set (questions st). answers st (q_folder qd) \<noteq> Some NoneMode"
  shows "(\<exists>rows. results st = Inr rows \<and>
            map row_folder rows = map q_folder (questions st) \<and>
            (\<forall>i < length rows.
               row_participant (rows ! i) = participant_name st \<and>
               (answers st (q_folder (questions st ! i)) = None \<longrightarrow>
                  row_selected_file (rows ! i) = []) \<and>
               (\<forall>f. answers st (q_folder (questions st ! i)) = Some (Best f) \<longrightarrow>
                  row_selected_file (rows ! i) = f))) \<and>
         (\<exists>folders keep st1.
            list_folders fs root_dir = Inr folders \<and>
            start_refresh shuffle fs root_dir name sq si st0 = Inr st1 \<and>
            map q_folder (questions st1) =
              filter keep (if sq then shuffle (name @ ''|questions'') folders else folders))"
proof
  from results_loop_answered [OF assms]
  obtain rows where rows: "results st = Inr rows"
    by (auto simp: results_def)
  note nth = results_rows_nth [OF rows]
  have len: "length rows = length (questions st)" by (rule nth(1))
  have row: "result_row_of (participant_name st) (answers st) (questions st ! i) = Inr (rows ! i)"
    if "i < length rows" for i
    using nth(2) [of i] that len by simp
  have "map row_folder rows = map q_folder (questions st)"
  proof (rule nth_equalityI)
    show "length (map row_folder rows) = length (map q_folder (questions st))"
      by (simp add: len)
    fix i assume "i < length (map row_folder rows)"
    then have i: "i < length rows" by simp
    from result_row_of_fields(2) [OF row [OF i]] i len
    show "map row_folder rows ! i = map q_folder (questions st) ! i" by simp
  qed
  moreover have "\<forall>i < length rows.
               row_participant (rows ! i) = participant_name st \<and>
               (answers st (q_folder (questions st ! i)) = None \<longrightarrow>
                  row_selected_file (rows ! i) = []) \<and>
               (\<forall>f. answers st (q_folder (questions st ! i)) = Some (Best f) \<longrightarrow>
                  row_selected_file (rows ! i) = f)"
    using row result_row_of_fields by blast
  ultimately show "\<exists>rows. results st = Inr rows \<and>
            map row_folder rows = map q_folder (questions st) \<and>
            (\<forall>i < length rows.
               row_participant (rows ! i) = participant_name st \<and>
               (answers st (q_folder (questions st ! i)) = None \<longrightarrow>
                  row_selected_file (rows ! i) = []) \<and>
               (\<forall>f. answers st (q_folder (questions st ! i)) = Some (Best f) \<longrightarrow>
                  row_selected_file (rows ! i) = f))"
    using rows by blast
next
  let ?folders = "sort (filter (\<lambda>d. os_isdir fs (path_join root_dir d)) (listed_names fs root_dir))"
  let ?g = "question_for shuffle fs root_dir name si"
  let ?used = "if sq then shuffle (name @ ''|questions'') ?folders else ?folders"
  let ?st1 = "st0\<lparr>questions := filter (\<lambda>q. q_images q \<noteq> []) (map ?g ?used),
                  current_idx := 0, participant_name := name, answers := Map.empty,
                  state_initialized := True\<rparr>"
  have "list_folders fs root_dir = Inr ?folders" by (rule list_folders_listed)
  moreover have "start_refresh shuffle fs root_dir name sq si st0 = Inr ?st1"
    by (simp add: start_refresh_eq Let_def)
  moreover have "map q_folder (filter (\<lambda>q. q_images q \<noteq> []) (map ?g ?used)) =
      filter (\<lambda>fo. q_images (?g fo) \<noteq> []) ?used"
    by (rule map_filter_map) (simp add: question_for_def)
  then have "map q_folder (questions ?st1) = filter (\<lambda>fo. q_images (?g fo) \<noteq> []) ?used"
    by simp
  ultimately show "\<exists>folders keep st1.
            list_folders fs root_dir = Inr folders \<and>
            start_refresh shuffle fs root_dir name sq si st0 = Inr st1 \<and>
            map q_folder (questions st1) =
              filter keep (if sq then shuffle (name @ ''|questions'') folders else folders)"
    by blast
qed


lemma session_F1_best_results:
  "results (select_best ''F1'' (q_images qF1) ''img1.png'' session_F1_F2) =
     Inr [\<lparr>row_participant = ''name'', row_folder = ''F1'', row_selected_file = ''img1.png''\<rparr>,
          \<lparr>row_participant = ''name'', row_folder = ''F2'', row_selected_file = []\<rparr>]"
  by (simp add: results_def result_row_of_def select_best_def session_F1_F2_def qF1_def qF2_def)

theorem export_rows_follow_question_list_witness:
  "questions (select_best ''F1'' (q_images qF1) ''img1.png'' session_F1_F2) = [qF1, qF2] \<and>
   answers (select_best ''F1'' (q_images qF1) ''img1.png'' session_F1_F2) (q_folder qF1) =
     Some (Best ''img1.png'') \<and>
   answers (select_best ''F1'' (q_images qF1) ''img1.png'' session_F1_F2) (q_folder qF2) = None \<and>
   (\<exists>rows. results (select_best ''F1'' (q_images qF1) ''img1.png'' session_F1_F2) = Inr rows \<and>
      map row_folder rows = [''F1'', ''F2''] \<and>
      rows =
        [\<lparr>row_participant = ''name'', row_folder = ''F1'', row_selected_file = ''img1.png''\<rparr>,
         \<lparr>row_participant = ''name'', row_folder = ''F2'', row_selected_file = []\<rparr>])"
proof -
  let ?st = "select_best ''F1'' (q_images qF1) ''img1.png'' session_F1_F2"
  have qs: "questions ?st = [qF1, qF2]"
    by (simp add: select_best_def session_F1_F2_def)
  have a1: "answers ?st (q_folder qF1) = Some (Best ''img1.png'')"
    by (simp add: select_best_def session_F1_F2_def qF1_def)
  have a2: "answers ?st (q_folder qF2) = None"
    by (simp add: select_best_def session_F1_F2_def qF1_def qF2_def)
  have hyp: "\<forall>qd \<in> set (questions ?st). answers ?st (q_folder qd) \<noteq> Some NoneMode"
    unfolding qs using a1 a2 by simp
  from export_rows_follow_question_list [OF hyp]
  obtain rows where rows: "results ?st = Inr rows"
    and order: "map row_folder rows = map q_folder (questions ?st)"
    by blast
  from order [unfolded qs] have "map row_folder rows = [''F1'', ''F2'']"
    by (simp add: qF1_def qF2_def)
  moreover from rows have "rows =
        [\<lparr>row_participant = ''name'', row_folder = ''F1'', row_selected_file = ''img1.png''\<rparr>,
         \<lparr>row_participant = ''name'', row_folder = ''F2'', row_selected_file = []\<rparr>]"
    by (simp add: session_F1_best_results)
  ultimately have "\<exists>rows. results ?st = Inr rows \<and>
      map row_folder rows = [''F1'', ''F2''] \<and>
      rows =
        [\<lparr>row_participant = ''name'', row_folder = ''F1'', row_selected_file = ''img1.png''\<rparr>,
         \<lparr>row_participant = ''name'', row_folder = ''F2'', row_selected_file = []\<rparr>]"
    using rows by - (rule exI [of _ rows], intro conjI, assumption+)
  with qs a1 a2 show ?thesis by (intro conjI)
qed

subsection \<open>Saving the results\<close>

lemma export_makedirs_failure:
  assumes "results st = Inr rows"
    and "os_makedirs fs (path_join root_dir ''results'') = Some e"
  shows "export_section to_csv fs root_dir fn st = Inl e"
  using assms by (simp add: export_section_def Let_def)

lemma export_write_failure:
  assumes "results st = Inr rows"
    and "os_makedirs fs (path_join root_dir ''results'') = None"
    and "write_text fs (path_join (path_join root_dir ''results'') fn) (to_csv rows) = Some e"
  shows "export_section to_csv fs root_dir fn st =
           Inr \<lparr>save_notice = Warning (''Could not save results to disk: '' @ error_text e),
                download_data = to_csv rows, download_name = fn\<rparr>"
  using assms by (simp add: export_section_def Let_def)

lemma export_write_success:
  assumes "results st = Inr rows"
    and "os_makedirs fs (path_join root_dir ''results'') = None"
    and "write_text fs (path_join (path_join root_dir ''results'') fn) (to_csv rows) = None"
  shows "export_section to_csv fs root_dir fn st =
           Inr \<lparr>save_notice =
                  Success (''Saved results to: '' @ path_join (path_join root_dir ''results'') fn),
                download_data = to_csv rows, download_name = fn\<rparr>"
  using assms by (simp add: export_section_def Let_def)

text \<open>
  Claim C3. The claim wants every failure of the disk copy, creating the results folder
  included, to end in a warning with the download still offered. A failure of the write is
  caught so (\<open>export_write_failure\<close>), but \<open>os.makedirs\<close> runs before the \<open>try\<close> statement:
  on a read-only file system without a results folder its \<open>OSError\<close> ends the run, and no
  warning and no download are produced.
\<close>

theorem makedirs_failure_aborts_export:
  "results session_F1_F2 =
     Inr [\<lparr>row_participant = ''name'', row_folder = ''F1'', row_selected_file = []\<rparr>,
          \<lparr>row_participant = ''name'', row_folder = ''F2'', row_selected_file = []\<rparr>] \<and>
   os_makedirs broken_fs (path_join ''/data'' ''results'') =
     Some (OSError ''Read-only file system'') \<and>
   export_section to_csv broken_fs ''/data'' fn session_F1_F2 =
     Inl (OSError ''Read-only file system'')"
proof -
  have rows: "results session_F1_F2 =
     Inr [\<lparr>row_participant = ''name'', row_folder = ''F1'', row_selected_file = []\<rparr>,
          \<lparr>row_participant = ''name'', row_folder = ''F2'', row_selected_file = []\<rparr>]"
    by (simp add: results_def result_row_of_def session_F1_F2_def qF1_def qF2_def)
  have mk: "os_makedirs broken_fs (path_join ''/data'' ''results'') =
     Some (OSError ''Read-only file system'')"
    by (simp add: broken_fs_def)
  from export_makedirs_failure [OF rows mk] rows mk show ?thesis by simp
qed

subsection \<open>Answers a session can hold\<close>






end
